theory Spec2Isabelle
  imports Main "HOL-Library.AList"
begin

section \<open>The data of \<open>redisService.js\<close>\<close>

text \<open>
  The service is the class \<open>RedisService\<close> of \<open>src/backend/services/redisService.js\<close>: a
  connectivity flag, three client handles and an in-memory \<open>Map\<close> (the fallback store), in
  front of a Redis server. Every public method is an \<open>async\<close> function whose body is one
  \<open>try\<close>/\<open>catch\<close>. The model is sequential: a method runs to completion on the state
  it finds, and the connectivity flag changes only between calls, through the handlers
  that \<open>init\<close> registers on the command client.

  Values handed to the service (session state, event data, the extra fields of a
  participant) are JSON data. Times are milliseconds and time-to-live values are
  seconds, both integers.
\<close>

datatype json =
  JNull | JBool bool | JNum int | JStr string | JArr "json list" | JObj "(string \<times> json) list"

text \<open>
  A participant record: the field \<open>id\<close> of the source is \<open>pid\<close> here. Where the source
  takes or stores a participant, the value can also be \<open>null\<close>: it has the type
  \<open>participant option\<close>, and \<open>None\<close> is \<open>null\<close>.
\<close>

record participant =
  pid :: string
  extra :: "(string \<times> json) list"

text \<open>What the platform and the Redis client can throw.\<close>

datatype exn = RedisError | WrongType | SyntaxError | TypeError

text \<open>
  A string as it travels to and from Redis: either the text \<open>JSON.stringify\<close> produced
  for a value, which \<open>JSON.parse\<close> turns back into that value, or any other string, which
  \<open>JSON.parse\<close> rejects. The empty string is the only falsy one.
\<close>

datatype 'a wire = Json 'a | Raw string

definition JSON_stringify :: "'a \<Rightarrow> 'a wire" where
  "JSON_stringify v = Json v"

fun JSON_parse :: "'a wire \<Rightarrow> exn + 'a" where
  "JSON_parse (Json v) = Inr v"
| "JSON_parse (Raw s) = Inl SyntaxError"

fun truthy :: "'a wire \<Rightarrow> bool" where
  "truthy (Json v) = True"
| "truthy (Raw s) = (s \<noteq> [])"

text \<open>\<open>xs.map(p => JSON.parse(p))\<close>: the first text that does not parse throws.\<close>

fun parse_all :: "'a wire list \<Rightarrow> exn + 'a list" where
  "parse_all [] = Inr []"
| "parse_all (t # ts) =
     (case JSON_parse t of
        Inl x \<Rightarrow> Inl x
      | Inr v \<Rightarrow> (case parse_all ts of Inl x \<Rightarrow> Inl x | Inr vs \<Rightarrow> Inr (v # vs)))"

text \<open>
  The values of the fallback \<open>Map\<close>: \<open>{ data, expires }\<close> under a \<open>session:\<close> key, an array
  of participants under a \<open>participants:\<close> key. An element of the array is \<open>None\<close> when it
  is \<open>null\<close>.
\<close>

datatype slot = Entry json int | Plist "participant option list"

text \<open>The envelope \<open>{ event, data, timestamp }\<close> of a published message.\<close>

record envelope =
  event :: string
  data :: json
  timestamp :: int

datatype conn = Client | Publisher | Subscriber | Duplicate nat

type_synonym callback = nat

subsection \<open>The Redis server\<close>

text \<open>
  The server is the environment of the service. Its model covers the commands the service
  issues: a keyspace of strings and hashes, each key with an optional absolute expiry
  time; the channel subscriptions; the connections that are open; and the log of the
  callbacks that subscriptions have invoked.
\<close>

datatype rvalue = RString "json wire" | RHash "(string \<times> participant wire) list"

record redis =
  keyspace :: "string \<rightharpoonup> rvalue \<times> int option"
  subs :: "(string \<times> conn \<times> callback) list"
  open_conns :: "conn set"
  invoked :: "(callback \<times> envelope) list"

text \<open>
  The conditions of one call: the clock, which of the remote commands of the call fail
  (numbered from 0 in the order the method issues them), and what the server answers
  to \<open>PING\<close>.
\<close>

record env =
  now :: int
  fails :: "nat \<Rightarrow> bool"
  ping_reply :: string

type_synonym 'a reply = "(exn + 'a) \<times> redis"

text \<open>A key whose expiry time has been reached is gone.\<close>

definition lookup_live :: "int \<Rightarrow> redis \<Rightarrow> string \<Rightarrow> (rvalue \<times> int option) option" where
  "lookup_live t r k =
     (case keyspace r k of
        None \<Rightarrow> None
      | Some (v, None) \<Rightarrow> Some (v, None)
      | Some (v, Some x) \<Rightarrow> if t < x then Some (v, Some x) else None)"

definition redis_setEx :: "bool \<Rightarrow> int \<Rightarrow> string \<Rightarrow> int \<Rightarrow> json wire \<Rightarrow> redis \<Rightarrow> unit reply" where
  "redis_setEx fl t k secs txt r =
     (if fl \<or> secs \<le> 0 then (Inl RedisError, r)
      else (Inr (), r\<lparr>keyspace := (keyspace r)(k \<mapsto> (RString txt, Some (t + secs * 1000)))\<rparr>))"

definition redis_get :: "bool \<Rightarrow> int \<Rightarrow> string \<Rightarrow> redis \<Rightarrow> json wire option reply" where
  "redis_get fl t k r =
     (if fl then (Inl RedisError, r)
      else case lookup_live t r k of
        None \<Rightarrow> (Inr None, r)
      | Some (RString txt, x) \<Rightarrow> (Inr (Some txt), r)
      | Some (RHash h, x) \<Rightarrow> (Inl WrongType, r))"

definition redis_del :: "bool \<Rightarrow> string \<Rightarrow> redis \<Rightarrow> unit reply" where
  "redis_del fl k r =
     (if fl then (Inl RedisError, r)
      else (Inr (), r\<lparr>keyspace := (keyspace r)(k := None)\<rparr>))"

definition redis_hSet :: "bool \<Rightarrow> int \<Rightarrow> string \<Rightarrow> string \<Rightarrow> participant wire \<Rightarrow> redis \<Rightarrow> unit reply" where
  "redis_hSet fl t k f txt r =
     (if fl then (Inl RedisError, r)
      else case lookup_live t r k of
        None \<Rightarrow> (Inr (), r\<lparr>keyspace := (keyspace r)(k \<mapsto> (RHash [(f, txt)], None))\<rparr>)
      | Some (RHash h, x) \<Rightarrow>
          (Inr (), r\<lparr>keyspace := (keyspace r)(k \<mapsto> (RHash (AList.update f txt h), x))\<rparr>)
      | Some (RString s, x) \<Rightarrow> (Inl WrongType, r))"

definition redis_expire :: "bool \<Rightarrow> int \<Rightarrow> string \<Rightarrow> int \<Rightarrow> redis \<Rightarrow> unit reply" where
  "redis_expire fl t k secs r =
     (if fl then (Inl RedisError, r)
      else case lookup_live t r k of
        None \<Rightarrow> (Inr (), r)
      | Some (v, x) \<Rightarrow>
          (Inr (), r\<lparr>keyspace := (keyspace r)(k \<mapsto> (v, Some (t + secs * 1000)))\<rparr>))"

definition redis_hDel :: "bool \<Rightarrow> int \<Rightarrow> string \<Rightarrow> string \<Rightarrow> redis \<Rightarrow> unit reply" where
  "redis_hDel fl t k f r =
     (if fl then (Inl RedisError, r)
      else case lookup_live t r k of
        None \<Rightarrow> (Inr (), r)
      | Some (RHash h, x) \<Rightarrow>
          (if AList.delete f h = [] then (Inr (), r\<lparr>keyspace := (keyspace r)(k := None)\<rparr>)
           else (Inr (), r\<lparr>keyspace := (keyspace r)(k \<mapsto> (RHash (AList.delete f h), x))\<rparr>))
      | Some (RString s, x) \<Rightarrow> (Inl WrongType, r))"

definition redis_hGetAll :: "bool \<Rightarrow> int \<Rightarrow> string \<Rightarrow> redis \<Rightarrow> (string \<times> participant wire) list reply" where
  "redis_hGetAll fl t k r =
     (if fl then (Inl RedisError, r)
      else case lookup_live t r k of
        None \<Rightarrow> (Inr [], r)
      | Some (RHash h, x) \<Rightarrow> (Inr h, r)
      | Some (RString s, x) \<Rightarrow> (Inl WrongType, r))"

text \<open>
  The listener that \<open>subscribeToEvents\<close> installs: it parses the message and calls the
  callback; a message that does not parse is logged and dropped.
\<close>

fun deliver :: "envelope wire \<Rightarrow> callback \<Rightarrow> (callback \<times> envelope) list" where
  "deliver (Json m) cb = [(cb, m)]"
| "deliver (Raw s) cb = []"

definition redis_publish :: "bool \<Rightarrow> string \<Rightarrow> envelope wire \<Rightarrow> redis \<Rightarrow> unit reply" where
  "redis_publish fl ch msg r =
     (if fl then (Inl RedisError, r)
      else (Inr (), r\<lparr>invoked := invoked r @
              concat (map (\<lambda>(c, h, cb). if c = ch then deliver msg cb else []) (subs r))\<rparr>))"

definition redis_subscribe :: "bool \<Rightarrow> string \<Rightarrow> callback \<Rightarrow> redis \<Rightarrow> conn reply" where
  "redis_subscribe fl ch cb r =
     (if fl then (Inl RedisError, r)
      else (Inr (Duplicate (length (subs r))),
            r\<lparr>subs := subs r @ [(ch, Duplicate (length (subs r)), cb)],
              open_conns := insert (Duplicate (length (subs r))) (open_conns r)\<rparr>))"

definition redis_ping :: "bool \<Rightarrow> string \<Rightarrow> redis \<Rightarrow> string reply" where
  "redis_ping fl answer r = (if fl then (Inl RedisError, r) else (Inr answer, r))"

definition redis_disconnect :: "bool \<Rightarrow> conn \<Rightarrow> redis \<Rightarrow> unit reply" where
  "redis_disconnect fl c r =
     (if fl then (Inl RedisError, r) else (Inr (), r\<lparr>open_conns := open_conns r - {c}\<rparr>))"

subsection \<open>The service object\<close>

record service =
  client :: "conn option"
  publisher :: "conn option"
  subscriber :: "conn option"
  isConnected :: bool
  retryCount :: int
  maxRetries :: int
  fallbackStore :: "string \<rightharpoonup> slot"

text \<open>The fields as the constructor sets them, before it calls \<open>init\<close>.\<close>

definition constructor :: service where
  "constructor =
     \<lparr>client = None, publisher = None, subscriber = None, isConnected = False,
      retryCount = 0, maxRetries = 5, fallbackStore = Map.empty\<rparr>"

definition enableFallbackMode :: "service \<Rightarrow> service" where
  "enableFallbackMode s = s\<lparr>isConnected := False\<rparr>"

text \<open>
  \<open>init\<close>: command 0 is \<open>createClient\<close> (the three calls take the same configuration),
  command 1 is the joint \<open>connect\<close>. Either failure lands in the \<open>catch\<close>.
\<close>

definition init :: "env \<Rightarrow> service \<Rightarrow> redis \<Rightarrow> service \<times> redis" where
  "init e s r =
     (if fails e 0 then (enableFallbackMode (s\<lparr>isConnected := False\<rparr>), r)
      else
        let s1 = s\<lparr>client := Some Client, publisher := Some Publisher,
                   subscriber := Some Subscriber\<rparr>
        in if fails e 1 then (enableFallbackMode (s1\<lparr>isConnected := False\<rparr>), r)
           else (s1, r\<lparr>open_conns := open_conns r \<union> {Client, Publisher, Subscriber}\<rparr>))"

definition newRedisService :: "env \<Rightarrow> redis \<Rightarrow> service \<times> redis" where
  "newRedisService e r = init e constructor r"

text \<open>The handlers registered on the command client.\<close>

definition on_error :: "service \<Rightarrow> service" where
  "on_error s = enableFallbackMode (s\<lparr>isConnected := False\<rparr>)"

definition on_connect :: "service \<Rightarrow> service" where
  "on_connect s = s\<lparr>isConnected := True, retryCount := 0\<rparr>"

definition on_end :: "service \<Rightarrow> service" where
  "on_end s = enableFallbackMode (s\<lparr>isConnected := False\<rparr>)"

text \<open>The reconnect strategy returns \<open>false\<close> (stop) or a delay in milliseconds.\<close>

datatype reconnect = Stop | Delay int

definition reconnectStrategy :: "service \<Rightarrow> int \<Rightarrow> reconnect" where
  "reconnectStrategy s retries =
     (if retries > maxRetries s then Stop else Delay (min (retries * 100) 3000))"

text \<open>A command sent through a handle that is \<open>null\<close> throws before reaching the server.\<close>

definition throws :: "conn option \<Rightarrow> env \<Rightarrow> nat \<Rightarrow> bool" where
  "throws h e n = (h = None \<or> fails e n)"

definition session_key :: "string \<Rightarrow> string" where
  "session_key sessionId = ''session:'' @ sessionId"

definition participants_key :: "string \<Rightarrow> string" where
  "participants_key sessionId = ''participants:'' @ sessionId"

section \<open>Session state\<close>

text \<open>
  Every method returns \<open>(result, service, server)\<close>; the result is \<open>Inl\<close> when the
  promise is rejected, that is when an exception leaves the \<open>catch\<close> block.
\<close>

type_synonym 'a outcome = "(exn + 'a) \<times> service \<times> redis"

text \<open>The default of the parameter \<open>expireSeconds\<close>.\<close>

definition expireSeconds_of :: "int option \<Rightarrow> int" where
  "expireSeconds_of ttl = (case ttl of None \<Rightarrow> 3600 | Some n \<Rightarrow> n)"

text \<open>
  \<open>this.fallbackStore.set(`session:${sessionId}`, { data: state, expires: Date.now() +
  expireSeconds * 1000 })\<close>, which the source writes out in the body and in the handler.
\<close>

definition store_entry :: "env \<Rightarrow> string \<Rightarrow> json \<Rightarrow> int \<Rightarrow> service \<Rightarrow> service" where
  "store_entry e sessionId state expireSeconds s =
     s\<lparr>fallbackStore := (fallbackStore s)
          (session_key sessionId \<mapsto> Entry state (now e + expireSeconds * 1000))\<rparr>"

definition setSessionState ::
    "env \<Rightarrow> string \<Rightarrow> json \<Rightarrow> int option \<Rightarrow> service \<Rightarrow> redis \<Rightarrow> bool outcome" where
  "setSessionState e sessionId state ttl s r =
     (let expireSeconds = expireSeconds_of ttl in
      if \<not> isConnected s then (Inr True, store_entry e sessionId state expireSeconds s, r)
      else
        case redis_setEx (throws (client s) e 0) (now e) (session_key sessionId) expireSeconds
               (JSON_stringify state) r of
          (Inr u, r') \<Rightarrow> (Inr True, s, r')
        | (Inl err, r') \<Rightarrow> (Inr True, store_entry e sessionId state expireSeconds s, r'))"

text \<open>
  \<open>stored && stored.expires > Date.now()\<close>, then \<open>stored.data\<close>: an array has no
  \<open>expires\<close>, and \<open>undefined > n\<close> is false.
\<close>

fun stored_data :: "int \<Rightarrow> slot option \<Rightarrow> json option" where
  "stored_data t None = None"
| "stored_data t (Some (Entry d x)) = (if x > t then Some d else None)"
| "stored_data t (Some (Plist ps)) = None"

definition getSessionState :: "env \<Rightarrow> string \<Rightarrow> service \<Rightarrow> redis \<Rightarrow> json option outcome" where
  "getSessionState e sessionId s r =
     (if \<not> isConnected s then
        (case stored_data (now e) (fallbackStore s (session_key sessionId)) of
           Some d \<Rightarrow> (Inr (Some d), s, r)
         | None \<Rightarrow>
             (Inr None,
              s\<lparr>fallbackStore := (fallbackStore s)(session_key sessionId := None)\<rparr>, r))
      else
        case redis_get (throws (client s) e 0) (now e) (session_key sessionId) r of
          (Inr None, r') \<Rightarrow> (Inr None, s, r')
        | (Inr (Some state), r') \<Rightarrow>
            (if truthy state then
               (case JSON_parse state of
                  Inr v \<Rightarrow> (Inr (Some v), s, r')
                | Inl err \<Rightarrow>
                    (Inr (stored_data (now e) (fallbackStore s (session_key sessionId))), s, r'))
             else (Inr None, s, r'))
        | (Inl err, r') \<Rightarrow>
            (Inr (stored_data (now e) (fallbackStore s (session_key sessionId))), s, r'))"

definition deleteSessionState :: "env \<Rightarrow> string \<Rightarrow> service \<Rightarrow> redis \<Rightarrow> bool outcome" where
  "deleteSessionState e sessionId s r =
     (if \<not> isConnected s then
        (Inr True, s\<lparr>fallbackStore := (fallbackStore s)(session_key sessionId := None)\<rparr>, r)
      else
        case redis_del (throws (client s) e 0) (session_key sessionId) r of
          (Inr u, r') \<Rightarrow> (Inr True, s, r')
        | (Inl err, r') \<Rightarrow>
            (Inr True,
             s\<lparr>fallbackStore := (fallbackStore s)(session_key sessionId := None)\<rparr>, r'))"

section \<open>Participants\<close>

text \<open>\<open>this.fallbackStore.get(key) || []\<close>: every stored value is an object, so truthy.\<close>

fun or_empty :: "slot option \<Rightarrow> slot" where
  "or_empty None = Plist []"
| "or_empty (Some v) = v"

text \<open>
  An element of a stored array, or the argument \<open>participant\<close>, is a participant record or
  \<open>null\<close> (\<open>None\<close>). Reading \<open>x.id\<close> of \<open>null\<close> throws.
\<close>

fun id_of :: "participant option \<Rightarrow> exn + string" where
  "id_of None = Inl TypeError"
| "id_of (Some p) = Inr (pid p)"

text \<open>The callback \<open>p => p.id !== participant.id\<close>, which reads \<open>p.id\<close> first.\<close>

definition differs :: "participant option \<Rightarrow> participant option \<Rightarrow> exn + bool" where
  "differs participant q =
     (case id_of q of
        Inl x \<Rightarrow> Inl x
      | Inr a \<Rightarrow> (case id_of participant of Inl x \<Rightarrow> Inl x | Inr b \<Rightarrow> Inr (a \<noteq> b)))"

text \<open>The callback \<open>p => p.id !== participantId\<close>.\<close>

definition differs_from :: "string \<Rightarrow> participant option \<Rightarrow> exn + bool" where
  "differs_from participantId q =
     (case id_of q of Inl x \<Rightarrow> Inl x | Inr a \<Rightarrow> Inr (a \<noteq> participantId))"

text \<open>
  \<open>xs.filter(f)\<close> calls \<open>f\<close> on the elements in order; the first call that throws ends it.
\<close>

fun filter_throwing :: "('a \<Rightarrow> exn + bool) \<Rightarrow> 'a list \<Rightarrow> exn + 'a list" where
  "filter_throwing f [] = Inr []"
| "filter_throwing f (x # xs) =
     (case f x of
        Inl e \<Rightarrow> Inl e
      | Inr b \<Rightarrow>
          (case filter_throwing f xs of
             Inl e \<Rightarrow> Inl e
           | Inr ys \<Rightarrow> Inr (if b then x # ys else ys)))"

text \<open>\<open>stored.filter(f)\<close>: an object that is not an array has no \<open>filter\<close>.\<close>

fun js_filter ::
    "(participant option \<Rightarrow> exn + bool) \<Rightarrow> slot \<Rightarrow> exn + participant option list" where
  "js_filter f (Plist ps) = filter_throwing f ps"
| "js_filter f (Entry d x) = Inl TypeError"

text \<open>
  The four lines on the fallback store that \<open>addParticipant\<close> has in its body and in its
  handler: \<open>get\<close>, \<open>filter\<close>, \<open>push\<close>, \<open>set\<close>.
\<close>

definition fallback_add :: "string \<Rightarrow> participant option \<Rightarrow> service \<Rightarrow> exn + service" where
  "fallback_add sessionId participant s =
     (case js_filter (differs participant)
             (or_empty (fallbackStore s (participants_key sessionId))) of
        Inl x \<Rightarrow> Inl x
      | Inr updated \<Rightarrow>
          Inr (s\<lparr>fallbackStore := (fallbackStore s)
                  (participants_key sessionId \<mapsto> Plist (updated @ [participant]))\<rparr>))"

text \<open>The handler of \<open>addParticipant\<close>: what it throws leaves the method.\<close>

definition addParticipant_catch ::
    "string \<Rightarrow> participant option \<Rightarrow> service \<Rightarrow> redis \<Rightarrow> bool outcome" where
  "addParticipant_catch sessionId participant s r =
     (case fallback_add sessionId participant s of
        Inl x \<Rightarrow> (Inl x, s, r)
      | Inr s' \<Rightarrow> (Inr True, s', r))"

text \<open>
  While disconnected, the body writes the store and then logs \<open>participant.id\<close>, which
  throws for \<open>null\<close> after the write. While connected, \<open>participant.id\<close> is an argument of
  \<open>hSet\<close> and throws for \<open>null\<close> before the command is sent.
\<close>

definition addParticipant ::
    "env \<Rightarrow> string \<Rightarrow> participant option \<Rightarrow> service \<Rightarrow> redis \<Rightarrow> bool outcome" where
  "addParticipant e sessionId participant s r =
     (if \<not> isConnected s then
        (case fallback_add sessionId participant s of
           Inl err \<Rightarrow> addParticipant_catch sessionId participant s r
         | Inr s' \<Rightarrow>
             (case participant of
                None \<Rightarrow> addParticipant_catch sessionId participant s' r
              | Some p \<Rightarrow> (Inr True, s', r)))
      else
        case participant of
          None \<Rightarrow> addParticipant_catch sessionId participant s r
        | Some p \<Rightarrow>
            (case redis_hSet (throws (client s) e 0) (now e) (participants_key sessionId) (pid p)
                    (JSON_stringify p) r of
               (Inl err, r1) \<Rightarrow> addParticipant_catch sessionId participant s r1
             | (Inr u, r1) \<Rightarrow>
                 (case redis_expire (throws (client s) e 1) (now e)
                         (participants_key sessionId) 3600 r1 of
                    (Inl err, r2) \<Rightarrow> addParticipant_catch sessionId participant s r2
                  | (Inr u', r2) \<Rightarrow> (Inr True, s, r2))))"

definition fallback_remove :: "string \<Rightarrow> string \<Rightarrow> service \<Rightarrow> exn + service" where
  "fallback_remove sessionId participantId s =
     (case js_filter (differs_from participantId)
             (or_empty (fallbackStore s (participants_key sessionId))) of
        Inl x \<Rightarrow> Inl x
      | Inr updated \<Rightarrow>
          Inr (s\<lparr>fallbackStore := (fallbackStore s)
                  (participants_key sessionId \<mapsto> Plist updated)\<rparr>))"

definition removeParticipant_catch :: "string \<Rightarrow> string \<Rightarrow> service \<Rightarrow> redis \<Rightarrow> bool outcome" where
  "removeParticipant_catch sessionId participantId s r =
     (case fallback_remove sessionId participantId s of
        Inl x \<Rightarrow> (Inl x, s, r)
      | Inr s' \<Rightarrow> (Inr True, s', r))"

definition removeParticipant :: "env \<Rightarrow> string \<Rightarrow> string \<Rightarrow> service \<Rightarrow> redis \<Rightarrow> bool outcome" where
  "removeParticipant e sessionId participantId s r =
     (if \<not> isConnected s then
        (case fallback_remove sessionId participantId s of
           Inr s' \<Rightarrow> (Inr True, s', r)
         | Inl err \<Rightarrow> removeParticipant_catch sessionId participantId s r)
      else
        case redis_hDel (throws (client s) e 0) (now e) (participants_key sessionId)
               participantId r of
          (Inl err, r') \<Rightarrow> removeParticipant_catch sessionId participantId s r'
        | (Inr u, r') \<Rightarrow> (Inr True, s, r'))"

text \<open>
  \<open>getParticipants\<close> returns what it finds under the key in the fallback store, or
  \<open>Object.values(participants).map(p => JSON.parse(p))\<close> from the server.
\<close>

definition getParticipants :: "env \<Rightarrow> string \<Rightarrow> service \<Rightarrow> redis \<Rightarrow> slot outcome" where
  "getParticipants e sessionId s r =
     (if \<not> isConnected s then
        (Inr (or_empty (fallbackStore s (participants_key sessionId))), s, r)
      else
        case redis_hGetAll (throws (client s) e 0) (now e) (participants_key sessionId) r of
          (Inl err, r') \<Rightarrow>
            (Inr (or_empty (fallbackStore s (participants_key sessionId))), s, r')
        | (Inr participants, r') \<Rightarrow>
            (case parse_all (map snd participants) of
               Inl err \<Rightarrow>
                 (Inr (or_empty (fallbackStore s (participants_key sessionId))), s, r')
             | Inr ps \<Rightarrow> (Inr (Plist (map Some ps)), s, r')))"

section \<open>Events, health, shutdown\<close>

definition publishEvent :: "env \<Rightarrow> string \<Rightarrow> string \<Rightarrow> json \<Rightarrow> service \<Rightarrow> redis \<Rightarrow> bool outcome" where
  "publishEvent e channel ev d s r =
     (if \<not> isConnected s then (Inr True, s, r)
      else
        case redis_publish (throws (publisher s) e 0) channel
               (JSON_stringify \<lparr>event = ev, data = d, timestamp = now e\<rparr>) r of
          (Inr u, r') \<Rightarrow> (Inr True, s, r')
        | (Inl err, r') \<Rightarrow> (Inr True, s, r'))"

text \<open>\<open>subscribeToEvents\<close> returns \<open>true\<close>, the duplicated subscriber, or \<open>null\<close>.\<close>

datatype subscription = SubTrue | SubHandle conn | SubNull

definition subscribeToEvents ::
    "env \<Rightarrow> string \<Rightarrow> callback \<Rightarrow> service \<Rightarrow> redis \<Rightarrow> subscription outcome" where
  "subscribeToEvents e channel cb s r =
     (if \<not> isConnected s then (Inr SubTrue, s, r)
      else
        case redis_subscribe (throws (subscriber s) e 0) channel cb r of
          (Inr h, r') \<Rightarrow> (Inr (SubHandle h), s, r')
        | (Inl err, r') \<Rightarrow> (Inr SubNull, s, r'))"

record health =
  status :: string
  mode :: string
  connected :: bool
  error :: "string option"

fun message :: "exn \<Rightarrow> string" where
  "message RedisError = ''RedisError''"
| "message WrongType = ''WRONGTYPE''"
| "message SyntaxError = ''SyntaxError''"
| "message TypeError = ''TypeError''"

definition healthCheck :: "env \<Rightarrow> service \<Rightarrow> redis \<Rightarrow> health outcome" where
  "healthCheck e s r =
     (if \<not> isConnected s then
        (Inr \<lparr>status = ''fallback'', mode = ''in-memory'', connected = False, error = None\<rparr>, s, r)
      else
        case redis_ping (throws (client s) e 0) (ping_reply e) r of
          (Inr result, r') \<Rightarrow>
            (Inr \<lparr>status = (if result = ''PONG'' then ''connected'' else ''error''),
                  mode = ''redis'', connected = isConnected s, error = None\<rparr>, s, r')
        | (Inl x, r') \<Rightarrow>
            (Inr \<lparr>status = ''fallback'', mode = ''in-memory'', connected = False,
                  error = Some (message x)\<rparr>, s, r'))"

text \<open>\<open>if (h) await h.disconnect()\<close>.\<close>

definition close :: "conn option \<Rightarrow> bool \<Rightarrow> redis \<Rightarrow> unit reply" where
  "close h fl r = (case h of None \<Rightarrow> (Inr (), r) | Some c \<Rightarrow> redis_disconnect fl c r)"

text \<open>
  The three closes share one \<open>try\<close> block, so the first that throws ends the block; the
  fallback store is cleared after the \<open>catch\<close>.
\<close>

definition disconnect :: "env \<Rightarrow> service \<Rightarrow> redis \<Rightarrow> unit outcome" where
  "disconnect e s r =
     (let r' =
        (case close (client s) (fails e 0) r of
           (Inl err, r1) \<Rightarrow> r1
         | (Inr u1, r1) \<Rightarrow>
             (case close (publisher s) (fails e 1) r1 of
                (Inl err, r2) \<Rightarrow> r2
              | (Inr u2, r2) \<Rightarrow>
                  (case close (subscriber s) (fails e 2) r2 of
                     (Inl err, r3) \<Rightarrow> r3
                   | (Inr u3, r3) \<Rightarrow> r3)))
      in (Inr (), s\<lparr>fallbackStore := Map.empty\<rparr>, r'))"

section \<open>Runs of the service\<close>

text \<open>
  A run is a sequence of calls and of connection events, each under its own conditions.
\<close>

datatype call =
    SetSessionState string json "int option"
  | GetSessionState string
  | DeleteSessionState string
  | AddParticipant string "participant option"
  | RemoveParticipant string string
  | GetParticipants string
  | PublishEvent string string json
  | SubscribeToEvents string callback
  | HealthCheck
  | Disconnect
  | OnConnect
  | OnError
  | OnEnd

datatype ret =
    RBool bool
  | RState "json option"
  | RSlot slot
  | RSub subscription
  | RHealth health
  | RUndefined

definition returning :: "('a \<Rightarrow> ret) \<Rightarrow> 'a outcome \<Rightarrow> ret outcome" where
  "returning f out = (case out of (Inl x, s, r) \<Rightarrow> (Inl x, s, r) | (Inr v, s, r) \<Rightarrow> (Inr (f v), s, r))"

fun step :: "env \<Rightarrow> call \<Rightarrow> service \<Rightarrow> redis \<Rightarrow> ret outcome" where
  "step e (SetSessionState k v ttl) s r = returning RBool (setSessionState e k v ttl s r)"
| "step e (GetSessionState k) s r = returning RState (getSessionState e k s r)"
| "step e (DeleteSessionState k) s r = returning RBool (deleteSessionState e k s r)"
| "step e (AddParticipant k p) s r = returning RBool (addParticipant e k p s r)"
| "step e (RemoveParticipant k i) s r = returning RBool (removeParticipant e k i s r)"
| "step e (GetParticipants k) s r = returning RSlot (getParticipants e k s r)"
| "step e (PublishEvent ch ev d) s r = returning RBool (publishEvent e ch ev d s r)"
| "step e (SubscribeToEvents ch cb) s r = returning RSub (subscribeToEvents e ch cb s r)"
| "step e HealthCheck s r = returning RHealth (healthCheck e s r)"
| "step e Disconnect s r = returning (\<lambda>u. RUndefined) (disconnect e s r)"
| "step e OnConnect s r = (Inr RUndefined, on_connect s, r)"
| "step e OnError s r = (Inr RUndefined, on_error s, r)"
| "step e OnEnd s r = (Inr RUndefined, on_end s, r)"

fun exec :: "(env \<times> call) list \<Rightarrow> service \<times> redis \<Rightarrow> service \<times> redis" where
  "exec [] w = w"
| "exec ((e, c) # cs) (s, r) = exec cs (snd (step e c s r))"

section \<open>Predicates on states\<close>

text \<open>
  The value under a \<open>participants:\<close> key of the fallback store is absent or an array of
  participant records (no session entry, no \<open>null\<close> element).
\<close>

fun is_list :: "slot option \<Rightarrow> bool" where
  "is_list None = True"
| "is_list (Some (Plist ps)) = list_all (\<lambda>q. q \<noteq> None) ps"
| "is_list (Some (Entry d x)) = False"

text \<open>
  Every \<open>participants:\<close> key of the fallback store is as above. The store of a new service
  is empty, the methods write session entries under \<open>session:\<close> keys only, and an array
  gets a \<open>null\<close> element only when \<open>addParticipant\<close> is given \<open>null\<close>.
\<close>

definition store_typed :: "service \<Rightarrow> bool" where
  "store_typed s \<longleftrightarrow> (\<forall>sid. is_list (fallbackStore s (participants_key sid)))"

text \<open>A call whose participant argument, if it has one, is a record.\<close>

fun record_call :: "call \<Rightarrow> bool" where
  "record_call (AddParticipant k None) = False"
| "record_call c = True"

text \<open>
  A hash as \<open>addParticipant\<close> builds it: one field for each participant id, holding the
  text of a participant with that id.
\<close>

fun field_matches :: "string \<times> participant wire \<Rightarrow> bool" where
  "field_matches (f, Json p) = (pid p = f)"
| "field_matches (f, Raw s) = False"

definition hash_ok :: "(string \<times> participant wire) list \<Rightarrow> bool" where
  "hash_ok h \<longleftrightarrow> distinct (map fst h) \<and> list_all field_matches h"

fun participants_ok :: "(rvalue \<times> int option) option \<Rightarrow> bool" where
  "participants_ok None = True"
| "participants_ok (Some (RHash h, x)) = hash_ok h"
| "participants_ok (Some (RString t, x)) = False"




text \<open>The array under a key of the fallback store contains the record \<open>p\<close>.\<close>

fun holds :: "participant \<Rightarrow> slot option \<Rightarrow> bool" where
  "holds p (Some (Plist ps)) = (Some p \<in> set ps)"
| "holds p (Some (Entry d x)) = False"
| "holds p None = False"

text \<open>
  The calls that take the record \<open>p\<close> out of the fallback array of session \<open>sid\<close>:
  removing its id, adding a record with its id, shutting down.
\<close>

fun removes :: "string \<Rightarrow> participant \<Rightarrow> call \<Rightarrow> bool" where
  "removes sid p (RemoveParticipant k i) = (k = sid \<and> i = pid p)"
| "removes sid p (AddParticipant k (Some q)) = (k = sid \<and> pid q = pid p)"
| "removes sid p Disconnect = True"
| "removes sid p c = False"

section \<open>Concrete conditions, servers and records\<close>

definition env_up :: env where
  "env_up = \<lparr>now = 1000, fails = (\<lambda>n. False), ping_reply = ''PONG''\<rparr>"

definition env_down :: env where
  "env_down = \<lparr>now = 1000, fails = (\<lambda>n. True), ping_reply = ''PONG''\<rparr>"

definition env_late :: env where
  "env_late = \<lparr>now = 5000, fails = (\<lambda>n. True), ping_reply = ''PONG''\<rparr>"

definition env_next_day :: env where
  "env_next_day = \<lparr>now = 90000000, fails = (\<lambda>n. False), ping_reply = ''PONG''\<rparr>"

definition env_client_close_fails :: env where
  "env_client_close_fails = \<lparr>now = 1000, fails = (\<lambda>n. n = 0), ping_reply = ''PONG''\<rparr>"


definition redis_empty :: redis where
  "redis_empty = \<lparr>keyspace = Map.empty, subs = [], open_conns = {}, invoked = []\<rparr>"

definition alice :: participant where
  "alice = \<lparr>pid = ''p1'', extra = [(''alias'', JStr ''alice'')]\<rparr>"


definition bob :: participant where
  "bob = \<lparr>pid = ''p2'', extra = []\<rparr>"


definition remote_room :: "service \<times> redis" where
  "remote_room =
     exec [(env_up, OnConnect), (env_up, AddParticipant ''room'' (Some alice))]
       (newRedisService env_up redis_empty)"

text \<open>A run, over more than a day, that neither removes nor re-adds \<open>p1\<close> and does not shut down.\<close>

definition quiet_day :: "(env \<times> call) list" where
  "quiet_day =
     [(env_late, GetSessionState ''room''),
      (env_late, AddParticipant ''room'' (Some bob)),
      (env_next_day, RemoveParticipant ''room'' ''p2''),
      (env_next_day, SetSessionState ''room'' JNull (Some 1)),
      (env_next_day, OnConnect),
      (env_next_day, HealthCheck),
      (env_next_day, OnEnd)]"

section \<open>Unfolding the model\<close>

lemmas service_defs =
  setSessionState_def getSessionState_def deleteSessionState_def addParticipant_def
  removeParticipant_def getParticipants_def publishEvent_def subscribeToEvents_def
  healthCheck_def disconnect_def addParticipant_catch_def removeParticipant_catch_def
  fallback_add_def fallback_remove_def differs_def differs_from_def store_entry_def expireSeconds_of_def
  on_connect_def on_error_def on_end_def enableFallbackMode_def returning_def throws_def
  close_def

lemmas redis_defs =
  redis_setEx_def redis_get_def redis_del_def redis_hSet_def redis_expire_def redis_hDel_def
  redis_hGetAll_def redis_publish_def redis_subscribe_def redis_ping_def redis_disconnect_def
  lookup_live_def JSON_stringify_def

lemmas start_defs = newRedisService_def init_def constructor_def

lemma returning_state: "fst (snd (returning f out)) = fst (snd out)"
  by (auto simp: returning_def split: prod.splits sum.splits)

lemma keys_differ: "session_key a \<noteq> participants_key b"
  by (simp add: session_key_def participants_key_def)

lemma participants_key_eq: "participants_key a = participants_key b \<longleftrightarrow> a = b"
  by (simp add: participants_key_def)

lemma session_key_eq: "session_key a = session_key b \<longleftrightarrow> a = b"
  by (simp add: session_key_def)

lemma maxRetries_new: "maxRetries (fst (newRedisService e r)) = 5"
  by (simp add: newRedisService_def init_def constructor_def enableFallbackMode_def Let_def)

section \<open>Arrays of records\<close>

lemma key_ne: "participants_key a \<noteq> session_key b"
  using keys_differ [of b a] by (rule not_sym)

lemma all_records: "list_all (\<lambda>q. q \<noteq> None) qs \<Longrightarrow> \<exists>ps. qs = map Some ps"
  by (simp add: list_all_iff ex_map_conv)


lemma filter_records_add:
  "filter_throwing (differs (Some p)) (map Some ps) =
     Inr (map Some (filter (\<lambda>q. pid q \<noteq> pid p) ps))"
  by (induction ps) (auto simp: differs_def)

lemma filter_records_remove:
  "filter_throwing (differs_from i) (map Some ps) =
     Inr (map Some (filter (\<lambda>q. pid q \<noteq> i) ps))"
  by (induction ps) (auto simp: differs_from_def)

lemma is_list_cases:
  "is_list v \<Longrightarrow> v = None \<or> (\<exists>ps. v = Some (Plist (map Some ps)))"
proof (cases v rule: is_list.cases)
  case (2 ps)
  assume "is_list v"
  with 2 have "list_all (\<lambda>q. q \<noteq> None) ps" by simp
  then obtain rs where "ps = map Some rs" using all_records by blast
  with 2 show ?thesis by simp
qed auto

lemma is_list_or_empty: "is_list v \<Longrightarrow> \<exists>ps. or_empty v = Plist (map Some ps)"
proof -
  assume "is_list v"
  then consider "v = None" | ps where "v = Some (Plist (map Some ps))"
    using is_list_cases by auto
  then show ?thesis
  proof cases
    case 1
    then have "or_empty v = Plist (map Some [])" by simp
    then show ?thesis by blast
  next
    case 2
    then show ?thesis by auto
  qed
qed

lemma fallback_add_records:
  assumes "or_empty (fallbackStore s (participants_key k)) = Plist (map Some ps)"
  shows "fallback_add k (Some p) s =
           Inr (s\<lparr>fallbackStore := (fallbackStore s)
                  (participants_key k \<mapsto>
                     Plist (map Some (filter (\<lambda>q. pid q \<noteq> pid p) ps @ [p])))\<rparr>)"
  using assms by (simp add: fallback_add_def filter_records_add)

lemma fallback_remove_records:
  assumes "or_empty (fallbackStore s (participants_key k)) = Plist (map Some ps)"
  shows "fallback_remove k i s =
           Inr (s\<lparr>fallbackStore := (fallbackStore s)
                  (participants_key k \<mapsto> Plist (map Some (filter (\<lambda>q. pid q \<noteq> i) ps)))\<rparr>)"
  using assms by (simp add: fallback_remove_def filter_records_remove)

section \<open>No method raises on records\<close>

lemma or_empty_typed:
  assumes "store_typed s"
  shows "\<exists>ps. or_empty (fallbackStore s (participants_key sid)) = Plist (map Some ps)"
  using assms by (simp add: store_typed_def is_list_or_empty)

lemma store_typed_session_upd:
  assumes "store_typed s"
  shows "store_typed (s\<lparr>fallbackStore := (fallbackStore s)(session_key k := v)\<rparr>)"
  using assms by (simp add: store_typed_def key_ne)

lemma store_typed_plist_upd:
  "store_typed s \<Longrightarrow>
   store_typed (s\<lparr>fallbackStore := (fallbackStore s)
                    (participants_key k \<mapsto> Plist (map Some ps))\<rparr>)"
  by (simp add: store_typed_def list_all_iff)

lemma store_typed_flag: "store_typed (s\<lparr>isConnected := b\<rparr>) = store_typed s"
  by (simp add: store_typed_def)

lemma store_typed_retry: "store_typed (s\<lparr>retryCount := n\<rparr>) = store_typed s"
  by (simp add: store_typed_def)

lemma store_typed_cleared: "store_typed (s\<lparr>fallbackStore := Map.empty\<rparr>)"
  by (simp add: store_typed_def)

lemma store_typed_new: "store_typed (fst (newRedisService e r))"
  by (simp add: store_typed_def start_defs enableFallbackMode_def Let_def)

lemma fallback_add_typed:
  assumes "store_typed s"
  shows "\<exists>s'. fallback_add k (Some p) s = Inr s' \<and> store_typed s'"
proof -
  obtain ps where "or_empty (fallbackStore s (participants_key k)) = Plist (map Some ps)"
    using or_empty_typed [OF assms] by blast
  then show ?thesis
    using store_typed_plist_upd [OF assms, of k "filter (\<lambda>q. pid q \<noteq> pid p) ps @ [p]"]
    by (simp add: fallback_add_records)
qed

lemma fallback_remove_typed:
  assumes "store_typed s"
  shows "\<exists>s'. fallback_remove k i s = Inr s' \<and> store_typed s'"
proof -
  obtain ps where "or_empty (fallbackStore s (participants_key k)) = Plist (map Some ps)"
    using or_empty_typed [OF assms] by blast
  then show ?thesis
    using store_typed_plist_upd [OF assms] by (simp add: fallback_remove_records)
qed

lemma setSessionState_typed:
  assumes "store_typed s"
  shows "\<exists>s' r'. setSessionState e k v ttl s r = (Inr True, s', r') \<and> store_typed s'"
  using assms store_typed_session_upd [OF assms]
  by (auto simp: setSessionState_def store_entry_def Let_def split: prod.splits sum.splits)

lemma getSessionState_typed:
  assumes "store_typed s"
  shows "\<exists>v s' r'. getSessionState e k s r = (Inr v, s', r') \<and> store_typed s'"
  using assms store_typed_session_upd [OF assms]
  by (auto simp: getSessionState_def split: prod.splits sum.splits option.splits)

lemma deleteSessionState_typed:
  assumes "store_typed s"
  shows "\<exists>s' r'. deleteSessionState e k s r = (Inr True, s', r') \<and> store_typed s'"
  using assms store_typed_session_upd [OF assms]
  by (auto simp: deleteSessionState_def split: prod.splits sum.splits)

lemma addParticipant_catch_typed:
  assumes "store_typed s"
  shows "\<exists>s'. addParticipant_catch k (Some p) s r = (Inr True, s', r) \<and> store_typed s'"
  using fallback_add_typed [OF assms, of k p] by (auto simp: addParticipant_catch_def)

lemma addParticipant_paths:
  "isConnected s \<Longrightarrow>
   \<exists>r'. addParticipant e k (Some p) s r = (Inr True, s, r') \<or>
        addParticipant e k (Some p) s r = addParticipant_catch k (Some p) s r'"
  by (auto simp: addParticipant_def split: prod.splits sum.splits)

lemma addParticipant_typed:
  assumes "store_typed s"
  shows "\<exists>s' r'. addParticipant e k (Some p) s r = (Inr True, s', r') \<and> store_typed s'"
proof (cases "isConnected s")
  case False
  then show ?thesis
    using fallback_add_typed [OF assms, of k p] by (auto simp: addParticipant_def)
next
  case True
  then obtain r' where
    "addParticipant e k (Some p) s r = (Inr True, s, r') \<or>
     addParticipant e k (Some p) s r = addParticipant_catch k (Some p) s r'"
    using addParticipant_paths by blast
  then show ?thesis
    using addParticipant_catch_typed [OF assms, of k p r'] assms by auto
qed

lemma removeParticipant_catch_typed:
  assumes "store_typed s"
  shows "\<exists>s'. removeParticipant_catch k i s r = (Inr True, s', r) \<and> store_typed s'"
  using fallback_remove_typed [OF assms, of k i] by (auto simp: removeParticipant_catch_def)

lemma removeParticipant_paths:
  "isConnected s \<Longrightarrow>
   \<exists>r'. removeParticipant e k i s r = (Inr True, s, r') \<or>
        removeParticipant e k i s r = removeParticipant_catch k i s r'"
  by (auto simp: removeParticipant_def split: prod.splits sum.splits)

lemma removeParticipant_typed:
  assumes "store_typed s"
  shows "\<exists>s' r'. removeParticipant e k i s r = (Inr True, s', r') \<and> store_typed s'"
proof (cases "isConnected s")
  case False
  then show ?thesis
    using fallback_remove_typed [OF assms, of k i] by (auto simp: removeParticipant_def)
next
  case True
  then obtain r' where
    "removeParticipant e k i s r = (Inr True, s, r') \<or>
     removeParticipant e k i s r = removeParticipant_catch k i s r'"
    using removeParticipant_paths by blast
  then show ?thesis
    using removeParticipant_catch_typed [OF assms, of k i r'] assms by auto
qed

lemma getParticipants_typed:
  assumes "store_typed s"
  shows "\<exists>ps r'. getParticipants e k s r = (Inr (Plist (map Some ps)), s, r')"
  using or_empty_typed [OF assms, of k]
  by (auto simp: getParticipants_def split: prod.splits sum.splits)

lemma publishEvent_typed:
  "\<exists>r'. publishEvent e ch ev d s r = (Inr True, s, r')"
  by (auto simp: publishEvent_def split: prod.splits sum.splits)

lemma subscribeToEvents_typed:
  "\<exists>v r'. subscribeToEvents e ch cb s r = (Inr v, s, r')"
  by (auto simp: subscribeToEvents_def split: prod.splits sum.splits)

lemma healthCheck_typed:
  "\<exists>h r'. healthCheck e s r = (Inr h, s, r')"
  by (auto simp: healthCheck_def split: prod.splits sum.splits)

lemma disconnect_typed:
  "\<exists>s' r'. disconnect e s r = (Inr (), s', r') \<and> store_typed s'"
  by (auto simp: disconnect_def Let_def store_typed_cleared)

lemma step_typed:
  assumes "store_typed s" and "record_call c"
  shows "\<exists>v s' r'. step e c s r = (Inr v, s', r') \<and> store_typed s'"
proof (cases c)
  case (SetSessionState k v ttl)
  then show ?thesis using setSessionState_typed [OF assms(1), of e k v ttl r]
    by (auto simp: returning_def)
next
  case (GetSessionState k)
  then show ?thesis using getSessionState_typed [OF assms(1), of e k r]
    by (auto simp: returning_def)
next
  case (DeleteSessionState k)
  then show ?thesis using deleteSessionState_typed [OF assms(1), of e k r]
    by (auto simp: returning_def)
next
  case (AddParticipant k q)
  with assms(2) obtain p where "q = Some p" by (cases q) auto
  with AddParticipant show ?thesis using addParticipant_typed [OF assms(1), of e k p r]
    by (auto simp: returning_def)
next
  case (RemoveParticipant k i)
  then show ?thesis using removeParticipant_typed [OF assms(1), of e k i r]
    by (auto simp: returning_def)
next
  case (GetParticipants k)
  then show ?thesis using getParticipants_typed [OF assms(1), of e k r] assms(1)
    by (auto simp: returning_def)
next
  case (PublishEvent ch ev d)
  then show ?thesis using publishEvent_typed [of e ch ev d s r] assms(1)
    by (auto simp: returning_def)
next
  case (SubscribeToEvents ch cb)
  then show ?thesis using subscribeToEvents_typed [of e ch cb s r] assms(1)
    by (auto simp: returning_def)
next
  case HealthCheck
  then show ?thesis using healthCheck_typed [of e s r] assms(1)
    by (auto simp: returning_def)
next
  case Disconnect
  then show ?thesis using disconnect_typed [of e s r]
    by (auto simp: returning_def)
next
  case OnConnect
  then show ?thesis using assms(1) by (simp add: on_connect_def store_typed_def)
next
  case OnError
  then show ?thesis using assms(1)
    by (simp add: on_error_def enableFallbackMode_def store_typed_def)
next
  case OnEnd
  then show ?thesis using assms(1)
    by (simp add: on_end_def enableFallbackMode_def store_typed_def)
qed

lemma exec_typed:
  "store_typed (fst w) \<Longrightarrow> list_all (\<lambda>ec. record_call (snd ec)) cs \<Longrightarrow>
   store_typed (fst (exec cs w))"
proof (induction cs arbitrary: w)
  case Nil
  then show ?case by simp
next
  case (Cons a cs)
  obtain e c where a: "a = (e, c)" by (cases a)
  obtain s r where w: "w = (s, r)" by (cases w)
  from Cons.prems w a have "store_typed s" and "record_call c" by simp_all
  then obtain v s' r' where st: "step e c s r = (Inr v, s', r')" and "store_typed s'"
    using step_typed by blast
  then have "store_typed (fst (exec cs (s', r')))" using Cons.IH Cons.prems(2) by simp
  then show ?case using a w st by simp
qed

text \<open>
  Claim C1, as amended. In every state that a run of calls and connection events reaches
  from a new service, whatever the server holds and whatever fails, none of
  \<open>setSessionState\<close>, \<open>getSessionState\<close>, \<open>deleteSessionState\<close>, \<open>addParticipant\<close>,
  \<open>removeParticipant\<close>, \<open>getParticipants\<close>, \<open>publishEvent\<close> and \<open>healthCheck\<close> raises, and
  \<open>setSessionState\<close>, \<open>deleteSessionState\<close>, \<open>addParticipant\<close>, \<open>removeParticipant\<close> and
  \<open>publishEvent\<close> resolve to \<open>true\<close>, provided that the participant given to
  \<open>addParticipant\<close>, in the run and in the call, is a record and not \<open>null\<close>.
\<close>

theorem no_call_on_records_raises:
  assumes "list_all (\<lambda>ec. record_call (snd ec)) cs"
  shows "case exec cs (newRedisService e0 r0) of
     (s, r) \<Rightarrow>
       fst (setSessionState e k v ttl s r) = Inr True \<and>
       fst (deleteSessionState e k s r) = Inr True \<and>
       fst (addParticipant e k (Some p) s r) = Inr True \<and>
       fst (removeParticipant e k i s r) = Inr True \<and>
       fst (publishEvent e ch ev d s r) = Inr True \<and>
       (\<exists>x. fst (getSessionState e k s r) = Inr x) \<and>
       (\<exists>ps. fst (getParticipants e k s r) = Inr (Plist (map Some ps))) \<and>
       (\<exists>h. fst (healthCheck e s r) = Inr h)"
proof -
  obtain s r where w: "exec cs (newRedisService e0 r0) = (s, r)"
    by (cases "exec cs (newRedisService e0 r0)")
  have t: "store_typed s"
    using exec_typed [OF store_typed_new assms, of e0 r0] w by simp
  have 1: "fst (setSessionState e k v ttl s r) = Inr True"
    using setSessionState_typed [OF t, of e k v ttl r] by auto
  have 2: "fst (deleteSessionState e k s r) = Inr True"
    using deleteSessionState_typed [OF t, of e k r] by auto
  have 3: "fst (addParticipant e k (Some p) s r) = Inr True"
    using addParticipant_typed [OF t, of e k p r] by auto
  have 4: "fst (removeParticipant e k i s r) = Inr True"
    using removeParticipant_typed [OF t, of e k i r] by auto
  have 5: "fst (publishEvent e ch ev d s r) = Inr True"
    using publishEvent_typed [of e ch ev d s r] by auto
  have 6: "\<exists>x. fst (getSessionState e k s r) = Inr x"
    using getSessionState_typed [OF t, of e k r] by auto
  have 7: "\<exists>ps. fst (getParticipants e k s r) = Inr (Plist (map Some ps))"
    using getParticipants_typed [OF t, of e k r] by auto
  have 8: "\<exists>h. fst (healthCheck e s r) = Inr h"
    using healthCheck_typed [of e s r] by auto
  show ?thesis using w 1 2 3 4 5 6 7 8 by simp
qed

theorem no_call_on_records_raises_witness:
  "list_all (\<lambda>ec. record_call (snd ec))
     [(env_up, OnConnect), (env_down, AddParticipant ''room'' (Some alice)), (env_up, OnEnd)] \<and>
   (case exec
           [(env_up, OnConnect), (env_down, AddParticipant ''room'' (Some alice)), (env_up, OnEnd)]
           (newRedisService env_up redis_empty) of
      (s, r) \<Rightarrow>
        fst (setSessionState env_down ''abc'' (JStr ''x'') None s r) = Inr True \<and>
        fst (deleteSessionState env_down ''abc'' s r) = Inr True \<and>
        fst (addParticipant env_down ''abc'' (Some bob) s r) = Inr True \<and>
        fst (removeParticipant env_down ''abc'' ''ghost'' s r) = Inr True \<and>
        fst (publishEvent env_down ''room'' ''joined'' JNull s r) = Inr True \<and>
        (\<exists>x. fst (getSessionState env_down ''abc'' s r) = Inr x) \<and>
        (\<exists>ps. fst (getParticipants env_down ''abc'' s r) = Inr (Plist (map Some ps))) \<and>
        (\<exists>h. fst (healthCheck env_down s r) = Inr h))"
proof -
  have a: "list_all (\<lambda>ec. record_call (snd ec))
     [(env_up, OnConnect), (env_down, AddParticipant ''room'' (Some alice)), (env_up, OnEnd)]"
    by simp
  show ?thesis by (rule conjI [OF a no_call_on_records_raises [OF a]])
qed

text \<open>
  Given \<open>null\<close> on a disconnected service with no participants in the session,
  \<open>addParticipant\<close> stores the array \<open>[null]\<close>, throws at the log line, and throws again in
  its handler, on the stored \<open>null\<close>: the call is rejected. From then on a call of
  \<open>addParticipant\<close> with a record, or of \<open>removeParticipant\<close>, on that session is
  rejected as well.
\<close>

theorem addParticipant_null_rejects:
  "case addParticipant env_down ''room'' None (fst (newRedisService env_down redis_empty))
          redis_empty of
     (res, s', r') \<Rightarrow>
       res = Inl TypeError \<and>
       fallbackStore s' (participants_key ''room'') = Some (Plist [None]) \<and>
       fst (addParticipant env_down ''room'' (Some alice) s' r') = Inl TypeError \<and>
       fst (removeParticipant env_down ''room'' ''p1'' s' r') = Inl TypeError"
  by (simp add: service_defs start_defs env_down_def)

section \<open>Subscribing while disconnected\<close>

text \<open>
  Claim C2. While the connectivity flag is false, \<open>subscribeToEvents\<close> should return
  \<open>null\<close>. On a service whose connection failed it returns \<open>true\<close>; it does not raise, and
  it leaves the server, and so the subscriptions and the invoked callbacks, as they were.
\<close>

theorem subscribeToEvents_disconnected_returns_true:
  "\<not> isConnected (fst (newRedisService env_down redis_empty)) \<and>
   subscribeToEvents env_up ''room'' 7 (fst (newRedisService env_down redis_empty)) redis_empty =
     (Inr SubTrue, fst (newRedisService env_down redis_empty), redis_empty)"
  by (simp add: subscribeToEvents_def newRedisService_def init_def constructor_def
      enableFallbackMode_def env_down_def)

section \<open>Health\<close>

text \<open>
  Claim C3, as amended. Whenever the connectivity flag is false, \<open>healthCheck\<close> resolves to
  \<open>connected = false\<close>, \<open>status = "fallback"\<close> and \<open>mode = "in-memory"\<close>, without a probe.
\<close>

theorem healthCheck_disconnected:
  "\<not> isConnected s \<Longrightarrow>
   healthCheck e s r =
     (Inr \<lparr>status = ''fallback'', mode = ''in-memory'', connected = False, error = None\<rparr>, s, r)"
  by (simp add: healthCheck_def)

theorem healthCheck_disconnected_witness:
  "\<not> isConnected constructor \<and>
   healthCheck env_up constructor redis_empty =
     (Inr \<lparr>status = ''fallback'', mode = ''in-memory'', connected = False, error = None\<rparr>,
      constructor, redis_empty)"
proof -
  have d: "\<not> isConnected constructor" by (simp add: constructor_def)
  show ?thesis using d healthCheck_disconnected [OF d, of env_up redis_empty] by simp
qed

text \<open>The mode reported by a disconnected service is not \<open>"fallback"\<close>.\<close>

theorem healthCheck_mode_counterexample:
  "\<not> isConnected constructor \<and>
   \<not> (case fst (healthCheck env_up constructor redis_empty) of
         Inl x \<Rightarrow> False
       | Inr h \<Rightarrow> connected h = False \<and> mode h = ''fallback'')"
  by (simp add: healthCheck_def constructor_def)

section \<open>Writing and reading session state\<close>

text \<open>
  Claim C4. For every key, value and positive time-to-live, \<open>setSessionState\<close> resolves to
  \<open>true\<close> and a \<open>getSessionState\<close> of the same key that follows before the time-to-live has
  run out returns the value, when both calls are served by the same backend: the fallback
  store when the service is disconnected, the server when it is connected and the
  commands succeed (or the fallback store again when both commands fail).
\<close>

theorem set_then_get:
  assumes "0 < expireSeconds_of ttl"
    and "now e1 \<le> now e2"
    and "now e2 < now e1 + expireSeconds_of ttl * 1000"
    and "isConnected s \<longrightarrow> throws (client s) e1 0 = throws (client s) e2 0"
  shows "case setSessionState e1 k v ttl s r of
           (res, s', r') \<Rightarrow> res = Inr True \<and> fst (getSessionState e2 k s' r') = Inr (Some v)"
proof (cases "isConnected s")
  case False
  then show ?thesis using assms
    by (simp add: setSessionState_def getSessionState_def store_entry_def Let_def)
next
  case True
  show ?thesis
  proof (cases "throws (client s) e1 0")
    case t: True
    then have "throws (client s) e2 0" using assms True by simp
    then show ?thesis using assms True t
      by (simp add: setSessionState_def getSessionState_def store_entry_def Let_def
          redis_setEx_def redis_get_def)
  next
    case f: False
    then have "\<not> throws (client s) e2 0" using assms True by simp
    then show ?thesis using assms True f
      by (simp add: setSessionState_def getSessionState_def store_entry_def Let_def
          redis_setEx_def redis_get_def lookup_live_def JSON_stringify_def)
  qed
qed

theorem set_then_get_witness:
  "0 < expireSeconds_of (Some 10) \<and> now env_up \<le> now env_up \<and>
   now env_up < now env_up + expireSeconds_of (Some 10) * 1000 \<and>
   (isConnected (on_connect (fst (newRedisService env_up redis_empty))) \<and>
    throws (client (on_connect (fst (newRedisService env_up redis_empty)))) env_up 0 = False) \<and>
   (case setSessionState env_up ''abc'' (JStr ''x'') (Some 10)
           (on_connect (fst (newRedisService env_up redis_empty)))
           (snd (newRedisService env_up redis_empty)) of
      (res, s', r') \<Rightarrow>
        res = Inr True \<and> fst (getSessionState env_up ''abc'' s' r') = Inr (Some (JStr ''x'')))"
proof -
  have a: "0 < expireSeconds_of (Some 10)" by (simp add: expireSeconds_of_def)
  have b: "now env_up \<le> now env_up" by simp
  have c: "now env_up < now env_up + expireSeconds_of (Some 10) * 1000"
    by (simp add: expireSeconds_of_def)
  have d: "isConnected (on_connect (fst (newRedisService env_up redis_empty))) \<and>
    throws (client (on_connect (fst (newRedisService env_up redis_empty)))) env_up 0 = False"
    by (simp add: on_connect_def start_defs throws_def env_up_def Let_def)
  then have d': "isConnected (on_connect (fst (newRedisService env_up redis_empty))) \<longrightarrow>
    throws (client (on_connect (fst (newRedisService env_up redis_empty)))) env_up 0 =
    throws (client (on_connect (fst (newRedisService env_up redis_empty)))) env_up 0"
    by simp
  show ?thesis
    using a b c d set_then_get [OF a b c d', of "''abc''" "JStr ''x''"
        "snd (newRedisService env_up redis_empty)"]
    by simp
qed

section \<open>Reading an expired entry\<close>

text \<open>
  Claim C5. An expired entry that \<open>getSessionState\<close> finds in the fallback store should be
  deleted on every path. After a remote read has failed the method returns \<open>null\<close> for
  the expired entry and leaves it in the store: an entry written at time 1000 with one
  second to live is still there after a read at time 5000 on a connected service whose
  \<open>GET\<close> fails.
\<close>

theorem getSessionState_catch_keeps_expired:
  "case exec [(env_up, SetSessionState ''abc'' (JStr ''x'') (Some 1)), (env_up, OnConnect)]
          (newRedisService env_down redis_empty) of
     (s, r) \<Rightarrow>
       isConnected s \<and>
       fallbackStore s (session_key ''abc'') = Some (Entry (JStr ''x'') 2000) \<and>
       2000 \<le> now env_late \<and>
       (case getSessionState env_late ''abc'' s r of
          (res, s', r') \<Rightarrow>
            res = Inr None \<and>
            fallbackStore s' (session_key ''abc'') = Some (Entry (JStr ''x'') 2000))"
  by (simp add: service_defs redis_defs start_defs env_up_def env_down_def env_late_def
      redis_empty_def)

section \<open>The reconnect strategy\<close>

lemma maxRetries_fallback_add: "fallback_add k p s = Inr s' \<Longrightarrow> maxRetries s' = maxRetries s"
  by (auto simp: fallback_add_def split: sum.splits)

lemma maxRetries_fallback_remove:
  "fallback_remove k i s = Inr s' \<Longrightarrow> maxRetries s' = maxRetries s"
  by (auto simp: fallback_remove_def split: sum.splits)

lemma maxRetries_addParticipant_catch:
  "maxRetries (fst (snd (addParticipant_catch k p s r))) = maxRetries s"
  by (auto simp: addParticipant_catch_def split: sum.splits dest: maxRetries_fallback_add)

lemma maxRetries_removeParticipant_catch:
  "maxRetries (fst (snd (removeParticipant_catch k i s r))) = maxRetries s"
  by (auto simp: removeParticipant_catch_def split: sum.splits dest: maxRetries_fallback_remove)

lemma maxRetries_addParticipant:
  "maxRetries (fst (snd (addParticipant e k p s r))) = maxRetries s"
  by (auto simp: addParticipant_def maxRetries_addParticipant_catch
      split: prod.splits sum.splits option.splits dest: maxRetries_fallback_add)

lemma maxRetries_removeParticipant:
  "maxRetries (fst (snd (removeParticipant e k i s r))) = maxRetries s"
  by (auto simp: removeParticipant_def maxRetries_removeParticipant_catch
      split: prod.splits sum.splits dest: maxRetries_fallback_remove)

lemma maxRetries_step: "maxRetries (fst (snd (step e c s r))) = maxRetries s"
proof (cases c)
  case (AddParticipant k p)
  then show ?thesis by (simp add: returning_state maxRetries_addParticipant)
next
  case (RemoveParticipant k i)
  then show ?thesis by (simp add: returning_state maxRetries_removeParticipant)
qed (auto simp: returning_state service_defs Let_def split: prod.splits sum.splits option.splits)

lemma maxRetries_exec: "maxRetries (fst (exec cs w)) = maxRetries (fst w)"
proof (induction cs arbitrary: w)
  case Nil
  then show ?case by simp
next
  case (Cons a cs)
  obtain e c where a: "a = (e, c)" by (cases a)
  obtain s r where w: "w = (s, r)" by (cases w)
  have "maxRetries (fst (exec cs (snd (step e c s r)))) = maxRetries (fst (snd (step e c s r)))"
    by (rule Cons.IH)
  then show ?case using a w maxRetries_step [of e c s r] by simp
qed

text \<open>
  Claim C8. The constructor sets the maximum of 5 attempts and no method changes it. So
  at every time in the life of the service the reconnect strategy answers attempt \<open>n\<close>
  with the delay \<open>min (n * 100) 3000\<close> milliseconds when \<open>n \<le> 5\<close>, so for every \<open>n\<close>
  from 1 to 5, and with the stop signal when \<open>n > 5\<close>.
\<close>

theorem reconnectStrategy_backoff:
  "reconnectStrategy (fst (exec cs (newRedisService e r))) n =
     (if 5 < n then Stop else Delay (min (n * 100) 3000))"
  by (simp add: reconnectStrategy_def maxRetries_exec maxRetries_new)

theorem reconnectStrategy_backoff_witness:
  "reconnectStrategy (fst (exec quiet_day (newRedisService env_up redis_empty))) 1 = Delay 100
   \<and> reconnectStrategy (fst (exec quiet_day (newRedisService env_up redis_empty))) 5 = Delay 500
   \<and> reconnectStrategy (fst (exec quiet_day (newRedisService env_up redis_empty))) 6 = Stop"
  using reconnectStrategy_backoff [of quiet_day env_up redis_empty 1]
    reconnectStrategy_backoff [of quiet_day env_up redis_empty 5]
    reconnectStrategy_backoff [of quiet_day env_up redis_empty 6]
  by simp

section \<open>Shutdown\<close>

text \<open>
  Claim C9, as amended. \<open>disconnect\<close> never raises and always ends with the fallback store
  empty. It closes the command client, the publisher and the subscriber in this order and
  stops at the first close that fails: the connections before it are closed, the failing
  one and those after it are left as they were. When no close fails, all three are closed.
\<close>

theorem disconnect_stops_at_first_failure:
  "disconnect e s r =
     (Inr (), s\<lparr>fallbackStore := Map.empty\<rparr>,
      r\<lparr>open_conns := open_conns r -
          (if client s \<noteq> None \<and> fails e 0 then {}
           else set_option (client s) \<union>
             (if publisher s \<noteq> None \<and> fails e 1 then {}
              else set_option (publisher s) \<union>
                (if subscriber s \<noteq> None \<and> fails e 2 then {}
                 else set_option (subscriber s))))\<rparr>)"
proof -
  have two: "\<And>A (a::conn) b. A - {a} - {b} = A - {a, b}" by blast
  have three: "\<And>A (a::conn) b c. A - {a, b} - {c} = A - {a, b, c}" by blast
  show ?thesis
    by (cases "client s"; cases "publisher s"; cases "subscriber s")
       (auto simp: disconnect_def close_def redis_disconnect_def Let_def two three)
qed

theorem disconnect_stops_at_first_failure_witness:
  "case newRedisService env_up redis_empty of
     (s, r) \<Rightarrow>
       fst (disconnect env_up s r) = Inr () \<and>
       fallbackStore (fst (snd (disconnect env_up s r))) = Map.empty \<and>
       open_conns (snd (snd (disconnect env_up s r))) = {}"
  using disconnect_stops_at_first_failure
    [of env_up "fst (newRedisService env_up redis_empty)" "snd (newRedisService env_up redis_empty)"]
  by (simp add: start_defs env_up_def redis_empty_def Let_def split_beta)

text \<open>
  When only the close of the command client fails, the publisher, whose close would have
  succeeded, is still open after \<open>disconnect\<close>.
\<close>

theorem disconnect_leaves_publisher_open:
  "case newRedisService env_up redis_empty of
     (s, r) \<Rightarrow>
       publisher s = Some Publisher \<and> Publisher \<in> open_conns r \<and>
       \<not> fails env_client_close_fails 1 \<and>
       Publisher \<in> open_conns (snd (snd (disconnect env_client_close_fails s r)))"
  by (simp add: service_defs redis_defs start_defs env_up_def env_client_close_fails_def
      redis_empty_def Let_def)

section \<open>The participants of a session\<close>

subsection \<open>In the fallback store\<close>


lemma holds_Plist:
  "holds p v \<Longrightarrow> \<exists>ps. v = Some (Plist ps) \<and> Some p \<in> set ps"
  by (cases "(p, v)" rule: holds.cases) auto

lemma one_record: "filter (\<lambda>q. pid q = pid p) (filter (\<lambda>q. pid q \<noteq> pid p) ps @ [p]) = [p]"
  by (simp add: filter_empty_conv)

text \<open>The handler of \<open>addParticipant\<close> on an array of records.\<close>

lemma addParticipant_catch_records:
  assumes "is_list (fallbackStore s (participants_key sid))"
  shows "\<exists>ps. addParticipant_catch sid (Some p) s r =
           (Inr True,
            s\<lparr>fallbackStore := (fallbackStore s)
                (participants_key sid \<mapsto>
                   Plist (map Some (filter (\<lambda>q. pid q \<noteq> pid p) ps @ [p])))\<rparr>, r)"
proof -
  obtain ps where "or_empty (fallbackStore s (participants_key sid)) = Plist (map Some ps)"
    using is_list_or_empty [OF assms] by blast
  then have "addParticipant_catch sid (Some p) s r =
           (Inr True,
            s\<lparr>fallbackStore := (fallbackStore s)
                (participants_key sid \<mapsto>
                   Plist (map Some (filter (\<lambda>q. pid q \<noteq> pid p) ps @ [p])))\<rparr>, r)"
    by (simp add: addParticipant_catch_def fallback_add_records)
  then show ?thesis by (rule exI)
qed

lemma addParticipant_catch_one:
  assumes "is_list (fallbackStore s (participants_key sid))"
  shows "\<exists>s' ps. addParticipant_catch sid (Some p) s r = (Inr True, s', r) \<and>
           isConnected s' = isConnected s \<and> client s' = client s \<and>
           fallbackStore s' (participants_key sid) = Some (Plist (map Some ps)) \<and>
           filter (\<lambda>q. pid q = pid p) ps = [p]"
proof -
  obtain ps where c: "addParticipant_catch sid (Some p) s r =
           (Inr True,
            s\<lparr>fallbackStore := (fallbackStore s)
                (participants_key sid \<mapsto>
                   Plist (map Some (filter (\<lambda>q. pid q \<noteq> pid p) ps @ [p])))\<rparr>, r)"
    using addParticipant_catch_records [OF assms] by blast
  let ?ps = "filter (\<lambda>q. pid q \<noteq> pid p) ps @ [p]"
  let ?s = "s\<lparr>fallbackStore := (fallbackStore s)
                (participants_key sid \<mapsto> Plist (map Some ?ps))\<rparr>"
  have "addParticipant_catch sid (Some p) s r = (Inr True, ?s, r) \<and>
           isConnected ?s = isConnected s \<and> client ?s = client s \<and>
           fallbackStore ?s (participants_key sid) = Some (Plist (map Some ?ps)) \<and>
           filter (\<lambda>q. pid q = pid p) ?ps = [p]"
    using c one_record [of p ps] by simp
  then show ?thesis by blast
qed

text \<open>While disconnected, the body does what the handler does, and the log line is harmless.\<close>

lemma addParticipant_disconnected:
  assumes "\<not> isConnected s" and "is_list (fallbackStore s (participants_key sid))"
  shows "addParticipant e sid (Some p) s r = addParticipant_catch sid (Some p) s r"
proof -
  obtain ps where "or_empty (fallbackStore s (participants_key sid)) = Plist (map Some ps)"
    using is_list_or_empty [OF assms(2)] by blast
  then show ?thesis using assms(1)
    by (simp add: addParticipant_def addParticipant_catch_def fallback_add_records)
qed

lemma add_then_get_fallback:
  assumes "\<not> isConnected s" and "is_list (fallbackStore s (participants_key sid))"
  shows "\<exists>s' ps. addParticipant e sid (Some p) s r = (Inr True, s', r) \<and> \<not> isConnected s' \<and>
           fallbackStore s' (participants_key sid) = Some (Plist (map Some ps)) \<and>
           filter (\<lambda>q. pid q = pid p) ps = [p]"
  using addParticipant_catch_one [OF assms(2), of p r] addParticipant_disconnected [OF assms]
    assms(1)
  by auto

lemma getParticipants_fallback:
  assumes "\<not> isConnected s" and "holds p (fallbackStore s (participants_key sid))"
  shows "\<exists>ps. fst (getParticipants e sid s r) = Inr (Plist ps) \<and> Some p \<in> set ps"
  using assms(1) holds_Plist [OF assms(2)] by (auto simp: getParticipants_def)


subsection \<open>In the hash on the server\<close>

lemma field_matches_Json: "field_matches (f, w) \<Longrightarrow> \<exists>q. w = Json q \<and> pid q = f"
  by (cases "(f, w)" rule: field_matches.cases) auto

lemma hash_ok_Cons:
  "hash_ok ((f, w) # h) \<longleftrightarrow> f \<notin> fst ` set h \<and> field_matches (f, w) \<and> hash_ok h"
  by (auto simp: hash_ok_def)

lemma hash_ok_parse:
  "hash_ok h \<Longrightarrow> \<exists>ps. parse_all (map snd h) = Inr ps \<and> map pid ps = map fst h"
proof (induction h)
  case Nil
  then show ?case by simp
next
  case (Cons a h)
  obtain f w where a: "a = (f, w)" by (cases a)
  from Cons.prems a have m: "field_matches (f, w)" and ok: "hash_ok h"
    by (simp_all add: hash_ok_Cons)
  obtain q where q: "w = Json q" "pid q = f" using field_matches_Json [OF m] by blast
  obtain ps where "parse_all (map snd h) = Inr ps" "map pid ps = map fst h"
    using Cons.IH [OF ok] by blast
  then show ?case using a q by simp
qed

lemma hash_ok_update: "hash_ok h \<Longrightarrow> hash_ok (AList.update (pid p) (Json p) h)"
proof (induction h)
  case Nil
  then show ?case by (simp add: hash_ok_def)
next
  case (Cons a h)
  obtain f w where a: "a = (f, w)" by (cases a)
  from Cons.prems a have nf: "f \<notin> fst ` set h" and m: "field_matches (f, w)" and ok: "hash_ok h"
    by (simp_all add: hash_ok_Cons)
  show ?case
  proof (cases "f = pid p")
    case True
    then show ?thesis using a nf ok by (simp add: hash_ok_Cons)
  next
    case False
    then show ?thesis using a nf m Cons.IH [OF ok]
      by (simp add: hash_ok_Cons dom_update)
  qed
qed

lemma parse_update:
  "hash_ok h \<Longrightarrow>
   \<exists>ps. parse_all (map snd (AList.update (pid p) (Json p) h)) = Inr ps \<and>
        filter (\<lambda>q. pid q = pid p) ps = [p]"
proof (induction h)
  case Nil
  then show ?case by simp
next
  case (Cons a h)
  obtain f w where a: "a = (f, w)" by (cases a)
  from Cons.prems a have nf: "f \<notin> fst ` set h" and m: "field_matches (f, w)" and ok: "hash_ok h"
    by (simp_all add: hash_ok_Cons)
  obtain q where q: "w = Json q" "pid q = f" using field_matches_Json [OF m] by blast
  show ?case
  proof (cases "f = pid p")
    case True
    obtain ps where ps: "parse_all (map snd h) = Inr ps" "map pid ps = map fst h"
      using hash_ok_parse [OF ok] by blast
    have "pid p \<notin> set (map pid ps)" using nf True ps(2) by simp
    then have "\<forall>x\<in>set ps. pid x \<noteq> pid p" by (metis image_eqI set_map)
    then have "filter (\<lambda>q. pid q = pid p) ps = []"
      by (simp add: filter_empty_conv)
    then show ?thesis using a True ps(1) by simp
  next
    case False
    obtain ps where "parse_all (map snd (AList.update (pid p) (Json p) h)) = Inr ps"
      "filter (\<lambda>q. pid q = pid p) ps = [p]"
      using Cons.IH [OF ok] by blast
    then show ?thesis using a False q by simp
  qed
qed

lemma participants_ok_cases:
  "participants_ok v \<Longrightarrow> v = None \<or> (\<exists>h x. v = Some (RHash h, x) \<and> hash_ok h)"
  by (cases v rule: participants_ok.cases) auto

lemma lookup_live_Some: "lookup_live t r k = Some a \<Longrightarrow> keyspace r k = Some a"
  by (auto simp: lookup_live_def split: option.splits prod.splits if_splits)

lemma lookup_live_upd_None [simp]:
  "lookup_live t (r\<lparr>keyspace := (keyspace r)(k \<mapsto> (v, None))\<rparr>) k = Some (v, None)"
  by (simp add: lookup_live_def)



lemma addParticipant_remote:
  assumes "isConnected s" and "\<not> throws (client s) e 0" and "\<not> throws (client s) e 1"
    and "participants_ok (keyspace r (participants_key sid))"
  shows "\<exists>h. addParticipant e sid (Some p) s r =
             (Inr True, s,
              r\<lparr>keyspace := (keyspace r)
                  (participants_key sid \<mapsto> (RHash h, Some (now e + 3600 * 1000)))\<rparr>) \<and>
           hash_ok h \<and>
           (\<exists>ps. parse_all (map snd h) = Inr ps \<and> filter (\<lambda>q. pid q = pid p) ps = [p])"
proof (cases "lookup_live (now e) r (participants_key sid)")
  case None
  have "hash_ok [(pid p, Json p)]" by (simp add: hash_ok_def)
  moreover have "addParticipant e sid (Some p) s r =
      (Inr True, s,
       r\<lparr>keyspace := (keyspace r)
           (participants_key sid \<mapsto> (RHash [(pid p, Json p)], Some (now e + 3600 * 1000)))\<rparr>)"
    using assms(1,2,3) None
    by (simp add: addParticipant_def redis_hSet_def redis_expire_def JSON_stringify_def)
  ultimately show ?thesis by force
next
  case (Some a)
  then have "keyspace r (participants_key sid) = Some a" by (rule lookup_live_Some)
  then obtain h x where a: "a = (RHash h, x)" and ok: "hash_ok h"
    using participants_ok_cases [OF assms(4)] by auto
  let ?h = "AList.update (pid p) (Json p) h"
  have live: "lookup_live (now e)
      (r\<lparr>keyspace := (keyspace r)(participants_key sid \<mapsto> (RHash ?h, x))\<rparr>)
      (participants_key sid) = Some (RHash ?h, x)"
    using Some a by (auto simp: lookup_live_def split: option.splits if_splits)
  have "addParticipant e sid (Some p) s r =
      (Inr True, s,
       r\<lparr>keyspace := (keyspace r)
           (participants_key sid \<mapsto> (RHash ?h, Some (now e + 3600 * 1000)))\<rparr>)"
    using assms(1,2,3) Some a live
    by (simp add: addParticipant_def redis_hSet_def redis_expire_def JSON_stringify_def)
  then show ?thesis using hash_ok_update [OF ok, of p] parse_update [OF ok, of p] by blast
qed

lemma getParticipants_remote:
  assumes "isConnected s" and "\<not> throws (client s) e 0"
    and "keyspace r (participants_key sid) = Some (RHash h, Some x)"
    and "parse_all (map snd h) = Inr ps"
  shows "getParticipants e sid s r =
           (Inr (Plist (map Some (if now e < x then ps else []))), s, r)"
  using assms
  by (simp add: getParticipants_def redis_hGetAll_def lookup_live_def)






subsection \<open>The two example rooms\<close>


lemma remote_room_eval:
  "remote_room =
     (\<lparr>client = Some Client, publisher = Some Publisher, subscriber = Some Subscriber,
       isConnected = True, retryCount = 0, maxRetries = 5, fallbackStore = Map.empty\<rparr>,
      \<lparr>keyspace = [participants_key ''room'' \<mapsto> (RHash [(''p1'', Json alice)], Some 3601000)],
       subs = [], open_conns = {Client, Publisher, Subscriber}, invoked = []\<rparr>)"
  by (simp add: remote_room_def service_defs redis_defs start_defs env_up_def alice_def
      redis_empty_def Let_def insert_commute)

subsection \<open>Adding a participant twice\<close>



subsection \<open>Removing a participant that is not there\<close>



subsection \<open>Participants in the fallback store do not expire\<close>

lemma filter_throwing_keeps:
  "filter_throwing f xs = Inr ys \<Longrightarrow> x \<in> set xs \<Longrightarrow> f x \<noteq> Inr False \<Longrightarrow> x \<in> set ys"
proof (induction xs arbitrary: ys)
  case Nil
  then show ?case by simp
next
  case (Cons a xs)
  then show ?case by (auto split: sum.splits if_splits)
qed

lemma differs_keeps:
  "\<not> removes sid p (AddParticipant sid q) \<Longrightarrow> differs q (Some p) \<noteq> Inr False"
  by (cases q) (auto simp: differs_def)

lemma differs_from_keeps: "i \<noteq> pid p \<Longrightarrow> differs_from i (Some p) \<noteq> Inr False"
  by (simp add: differs_from_def)

lemma holds_session_upd:
  "holds p (fallbackStore s (participants_key sid)) \<Longrightarrow>
   holds p (((fallbackStore s)(session_key k := v)) (participants_key sid))"
  by (simp add: key_ne)

lemma holds_fallback_add:
  assumes "holds p (fallbackStore s (participants_key sid))"
    and "\<not> removes sid p (AddParticipant k q)"
    and "fallback_add k q s = Inr s'"
  shows "holds p (fallbackStore s' (participants_key sid))"
proof -
  obtain ps where ps: "fallbackStore s (participants_key sid) = Some (Plist ps)"
    "Some p \<in> set ps"
    using holds_Plist [OF assms(1)] by blast
  show ?thesis
  proof (cases "k = sid")
    case True
    with assms(2) have d: "differs q (Some p) \<noteq> Inr False" using differs_keeps by simp
    from assms(3) True ps(1) obtain updated where u: "filter_throwing (differs q) ps = Inr updated"
      and s': "s' = s\<lparr>fallbackStore := (fallbackStore s)
                  (participants_key sid \<mapsto> Plist (updated @ [q]))\<rparr>"
      by (auto simp: fallback_add_def split: sum.splits)
    have "Some p \<in> set updated" by (rule filter_throwing_keeps [OF u ps(2) d])
    then show ?thesis using s' by simp
  next
    case False
    then show ?thesis using assms(3) ps
      by (auto simp: fallback_add_def participants_key_eq split: sum.splits)
  qed
qed

lemma holds_fallback_remove:
  assumes "holds p (fallbackStore s (participants_key sid))"
    and "\<not> (k = sid \<and> i = pid p)"
    and "fallback_remove k i s = Inr s'"
  shows "holds p (fallbackStore s' (participants_key sid))"
proof -
  obtain ps where ps: "fallbackStore s (participants_key sid) = Some (Plist ps)"
    "Some p \<in> set ps"
    using holds_Plist [OF assms(1)] by blast
  show ?thesis
  proof (cases "k = sid")
    case True
    with assms(2) have d: "differs_from i (Some p) \<noteq> Inr False" using differs_from_keeps by simp
    from assms(3) True ps(1) obtain updated where
      u: "filter_throwing (differs_from i) ps = Inr updated"
      and s': "s' = s\<lparr>fallbackStore := (fallbackStore s)
                  (participants_key sid \<mapsto> Plist updated)\<rparr>"
      by (auto simp: fallback_remove_def split: sum.splits)
    have "Some p \<in> set updated" by (rule filter_throwing_keeps [OF u ps(2) d])
    then show ?thesis using s' by simp
  next
    case False
    then show ?thesis using assms(3) ps
      by (auto simp: fallback_remove_def participants_key_eq split: sum.splits)
  qed
qed

lemma holds_addParticipant_catch:
  assumes "holds p (fallbackStore s (participants_key sid))"
    and "\<not> removes sid p (AddParticipant k q)"
  shows "holds p (fallbackStore (fst (snd (addParticipant_catch k q s r))) (participants_key sid))"
  using assms holds_fallback_add [OF assms]
  by (auto simp: addParticipant_catch_def split: sum.splits)

lemma holds_addParticipant:
  assumes "holds p (fallbackStore s (participants_key sid))"
    and "\<not> removes sid p (AddParticipant k q)"
  shows "holds p (fallbackStore (fst (snd (addParticipant e k q s r))) (participants_key sid))"
proof -
  have c: "holds p (fallbackStore (fst (snd (addParticipant_catch k q s0 r0)))
             (participants_key sid))"
    if "holds p (fallbackStore s0 (participants_key sid))" for s0 r0
    by (rule holds_addParticipant_catch [OF that assms(2)])
  have a: "holds p (fallbackStore s' (participants_key sid))"
    if "fallback_add k q s = Inr s'" for s'
    by (rule holds_fallback_add [OF assms that])
  show ?thesis using assms(1) c a
    by (auto simp: addParticipant_def split: prod.splits sum.splits option.splits)
qed

lemma holds_removeParticipant:
  assumes "holds p (fallbackStore s (participants_key sid))"
    and "\<not> (k = sid \<and> i = pid p)"
  shows "holds p (fallbackStore (fst (snd (removeParticipant e k i s r))) (participants_key sid))"
  using assms holds_fallback_remove [OF assms]
  by (auto simp: removeParticipant_def removeParticipant_catch_def split: prod.splits sum.splits)

lemma holds_setSessionState:
  assumes "holds p (fallbackStore s (participants_key sid))"
  shows "holds p (fallbackStore (fst (snd (setSessionState e k v ttl s r))) (participants_key sid))"
  using assms
  by (auto simp: setSessionState_def store_entry_def Let_def key_ne split: prod.splits sum.splits)

lemma holds_getSessionState:
  assumes "holds p (fallbackStore s (participants_key sid))"
  shows "holds p (fallbackStore (fst (snd (getSessionState e k s r))) (participants_key sid))"
  using assms
  by (auto simp: getSessionState_def key_ne split: prod.splits sum.splits option.splits)

lemma holds_deleteSessionState:
  assumes "holds p (fallbackStore s (participants_key sid))"
  shows "holds p (fallbackStore (fst (snd (deleteSessionState e k s r))) (participants_key sid))"
  using assms
  by (auto simp: deleteSessionState_def key_ne split: prod.splits sum.splits)

lemma holds_step:
  assumes "holds p (fallbackStore s (participants_key sid))" and "\<not> removes sid p c"
  shows "holds p (fallbackStore (fst (snd (step e c s r))) (participants_key sid))"
proof (cases c)
  case (SetSessionState k v ttl)
  then show ?thesis using holds_setSessionState [OF assms(1)] by (simp add: returning_state)
next
  case (GetSessionState k)
  then show ?thesis using holds_getSessionState [OF assms(1)] by (simp add: returning_state)
next
  case (DeleteSessionState k)
  then show ?thesis using holds_deleteSessionState [OF assms(1)] by (simp add: returning_state)
next
  case (AddParticipant k q)
  then show ?thesis using holds_addParticipant [OF assms(1), of k q e r] assms(2)
    by (simp add: returning_state)
next
  case (RemoveParticipant k i)
  then show ?thesis using holds_removeParticipant [OF assms(1), where k = k and i = i] assms(2)
    by (simp add: returning_state)
next
  case (GetParticipants k)
  then show ?thesis using assms(1)
    by (auto simp: returning_state getParticipants_def split: prod.splits sum.splits)
next
  case (PublishEvent ch ev d)
  then show ?thesis using assms(1)
    by (auto simp: returning_state publishEvent_def split: prod.splits sum.splits)
next
  case (SubscribeToEvents ch cb)
  then show ?thesis using assms(1)
    by (auto simp: returning_state subscribeToEvents_def split: prod.splits sum.splits)
next
  case HealthCheck
  then show ?thesis using assms(1)
    by (auto simp: returning_state healthCheck_def split: prod.splits sum.splits)
next
  case Disconnect
  then show ?thesis using assms(2) by simp
next
  case OnConnect
  then show ?thesis using assms(1) by (simp add: on_connect_def)
next
  case OnError
  then show ?thesis using assms(1) by (simp add: on_error_def enableFallbackMode_def)
next
  case OnEnd
  then show ?thesis using assms(1) by (simp add: on_end_def enableFallbackMode_def)
qed

lemma holds_exec:
  "holds p (fallbackStore (fst w) (participants_key sid)) \<Longrightarrow>
   list_all (\<lambda>ec. \<not> removes sid p (snd ec)) cs \<Longrightarrow>
   holds p (fallbackStore (fst (exec cs w)) (participants_key sid))"
proof (induction cs arbitrary: w)
  case Nil
  then show ?case by simp
next
  case (Cons a cs)
  obtain e c where a: "a = (e, c)" by (cases a)
  obtain s r where w: "w = (s, r)" by (cases w)
  obtain v s' r' where st: "step e c s r = (v, s', r')" by (cases "step e c s r")
  have "holds p (fallbackStore s' (participants_key sid))"
    using holds_step [of p s sid c e r] Cons.prems a w st by simp
  then have "holds p (fallbackStore (fst (exec cs (s', r'))) (participants_key sid))"
    using Cons.IH [of "(s', r')"] Cons.prems by simp
  then show ?case using a w st by simp
qed

text \<open>
  Claim C10. A participant record added while the service is disconnected stays in the
  fallback array of its session through every run of calls and connection events, at any
  times, that contains no \<open>removeParticipant\<close> of its id, no \<open>addParticipant\<close> of a record
  with its id in that session and no \<open>disconnect\<close>; \<open>getParticipants\<close> returns it whenever
  the service is then disconnected. On the server, in contrast, a successful
  \<open>addParticipant\<close> sets the expiry of the session's hash to one hour after the call, and
  a read at or after that time finds no participant.
\<close>
theorem fallback_participants_do_not_expire:
  "(\<not> isConnected s \<and> is_list (fallbackStore s (participants_key sid)) \<and>
    list_all (\<lambda>ec. \<not> removes sid p (snd ec)) cs \<longrightarrow>
      (case addParticipant e sid (Some p) s r of
         (res, s1, r1) \<Rightarrow>
           res = Inr True \<and>
           (case exec cs (s1, r1) of
              (s2, r2) \<Rightarrow>
                holds p (fallbackStore s2 (participants_key sid)) \<and>
                (\<forall>e'. \<not> isConnected s2 \<longrightarrow>
                   (\<exists>ps. fst (getParticipants e' sid s2 r2) = Inr (Plist ps) \<and> Some p \<in> set ps)))))
   \<and>
   (isConnected c \<and> \<not> throws (client c) e 0 \<and> \<not> throws (client c) e 1 \<and>
    participants_ok (keyspace r (participants_key sid)) \<longrightarrow>
      (case addParticipant e sid (Some p) c r of
         (res, c1, r1) \<Rightarrow>
           res = Inr True \<and> c1 = c \<and>
           (\<exists>h. keyspace r1 (participants_key sid) =
                  Some (RHash h, Some (now e + 3600 * 1000))) \<and>
           (\<forall>e'. now e + 3600 * 1000 \<le> now e' \<and> \<not> throws (client c) e' 0 \<longrightarrow>
                 fst (getParticipants e' sid c r1) = Inr (Plist []))))"
proof (intro conjI impI)
  assume a: "\<not> isConnected s \<and> is_list (fallbackStore s (participants_key sid)) \<and>
    list_all (\<lambda>ec. \<not> removes sid p (snd ec)) cs"
  then obtain s1 ps where 1: "addParticipant e sid (Some p) s r = (Inr True, s1, r)"
    and ps: "fallbackStore s1 (participants_key sid) = Some (Plist (map Some ps))"
      "filter (\<lambda>q. pid q = pid p) ps = [p]"
    using add_then_get_fallback [of s sid e p r] by blast
  have "p \<in> set (filter (\<lambda>q. pid q = pid p) ps)" using ps(2) by simp
  then have "Some p \<in> set (map Some ps)" by simp
  then have h1: "holds p (fallbackStore (fst (s1, r)) (participants_key sid))"
    using ps(1) by simp
  obtain s2 r2 where 2: "exec cs (s1, r) = (s2, r2)" by (cases "exec cs (s1, r)")
  have h2: "holds p (fallbackStore s2 (participants_key sid))"
    using holds_exec [OF h1, of cs] a 2 by simp
  have "\<exists>ps. fst (getParticipants e' sid s2 r2) = Inr (Plist ps) \<and> Some p \<in> set ps"
    if "\<not> isConnected s2" for e'
    using getParticipants_fallback [OF that h2] by simp
  then show "case addParticipant e sid (Some p) s r of
         (res, s1, r1) \<Rightarrow>
           res = Inr True \<and>
           (case exec cs (s1, r1) of
              (s2, r2) \<Rightarrow>
                holds p (fallbackStore s2 (participants_key sid)) \<and>
                (\<forall>e'. \<not> isConnected s2 \<longrightarrow>
                   (\<exists>ps. fst (getParticipants e' sid s2 r2) = Inr (Plist ps) \<and> Some p \<in> set ps)))"
    using 1 2 h2 by simp
next
  assume b: "isConnected c \<and> \<not> throws (client c) e 0 \<and> \<not> throws (client c) e 1 \<and>
    participants_ok (keyspace r (participants_key sid))"
  then obtain h ps where 1: "addParticipant e sid (Some p) c r =
       (Inr True, c,
        r\<lparr>keyspace := (keyspace r)
            (participants_key sid \<mapsto> (RHash h, Some (now e + 3600 * 1000)))\<rparr>)"
    and ps: "parse_all (map snd h) = Inr ps"
    using addParticipant_remote [of c e r sid p] by blast
  let ?r1 = "r\<lparr>keyspace := (keyspace r)
            (participants_key sid \<mapsto> (RHash h, Some (now e + 3600 * 1000)))\<rparr>"
  have "fst (getParticipants e' sid c ?r1) = Inr (Plist [])"
    if "now e + 3600 * 1000 \<le> now e' \<and> \<not> throws (client c) e' 0" for e'
    using getParticipants_remote [of c e' ?r1 sid h "now e + 3600 * 1000" ps] b ps that
    by simp
  then show "case addParticipant e sid (Some p) c r of
         (res, c1, r1) \<Rightarrow>
           res = Inr True \<and> c1 = c \<and>
           (\<exists>h. keyspace r1 (participants_key sid) =
                  Some (RHash h, Some (now e + 3600 * 1000))) \<and>
           (\<forall>e'. now e + 3600 * 1000 \<le> now e' \<and> \<not> throws (client c) e' 0 \<longrightarrow>
                 fst (getParticipants e' sid c r1) = Inr (Plist []))"
    using 1 by simp
qed

theorem fallback_participants_do_not_expire_witness:
  "(case addParticipant env_down ''room'' (Some alice) (fst (newRedisService env_down redis_empty))
           redis_empty of
      (res, s1, r1) \<Rightarrow>
        res = Inr True \<and>
        (case exec quiet_day (s1, r1) of
           (s2, r2) \<Rightarrow>
             \<not> isConnected s2 \<and>
             fst (getParticipants env_next_day ''room'' s2 r2) = Inr (Plist [Some alice]))) \<and>
   (case addParticipant env_up ''room'' (Some bob) (fst remote_room) (snd remote_room) of
      (res, c1, r1) \<Rightarrow>
        res = Inr True \<and>
        keyspace r1 (participants_key ''room'') =
          Some (RHash [(''p1'', Json alice), (''p2'', Json bob)], Some 3601000) \<and>
        fst (getParticipants env_next_day ''room'' c1 r1) = Inr (Plist []))"
proof -
  have a: "\<not> isConnected (fst (newRedisService env_down redis_empty)) \<and>
      is_list (fallbackStore (fst (newRedisService env_down redis_empty))
        (participants_key ''room'')) \<and>
      list_all (\<lambda>ec. \<not> removes ''room'' alice (snd ec)) quiet_day"
    by (simp add: start_defs enableFallbackMode_def env_down_def quiet_day_def alice_def bob_def)
  have b: "isConnected (fst remote_room) \<and> \<not> throws (client (fst remote_room)) env_up 0 \<and>
      \<not> throws (client (fst remote_room)) env_up 1 \<and>
      participants_ok (keyspace (snd remote_room) (participants_key ''room''))"
    by (simp add: remote_room_eval throws_def env_up_def hash_ok_def alice_def)
  have "(case addParticipant env_down ''room'' (Some alice) (fst (newRedisService env_down redis_empty))
           redis_empty of
      (res, s1, r1) \<Rightarrow>
        res = Inr True \<and>
        (case exec quiet_day (s1, r1) of
           (s2, r2) \<Rightarrow>
             holds alice (fallbackStore s2 (participants_key ''room'')) \<and>
             (\<forall>e'. \<not> isConnected s2 \<longrightarrow>
                (\<exists>ps. fst (getParticipants e' ''room'' s2 r2) = Inr (Plist ps) \<and>
                      Some alice \<in> set ps))))"
    by (rule mp [OF conjunct1 [OF fallback_participants_do_not_expire] a])
  moreover have "(case addParticipant env_up ''room'' (Some bob) (fst remote_room) (snd remote_room) of
      (res, c1, r1) \<Rightarrow>
        res = Inr True \<and> c1 = fst remote_room \<and>
        (\<exists>h. keyspace r1 (participants_key ''room'') =
               Some (RHash h, Some (now env_up + 3600 * 1000))) \<and>
        (\<forall>e'. now env_up + 3600 * 1000 \<le> now e' \<and> \<not> throws (client (fst remote_room)) e' 0 \<longrightarrow>
              fst (getParticipants e' ''room'' (fst remote_room) r1) = Inr (Plist [])))"
    by (rule mp [OF conjunct2 [OF fallback_participants_do_not_expire] b])
  ultimately show ?thesis
    by (simp add: remote_room_eval service_defs redis_defs start_defs env_up_def env_down_def
        env_late_def env_next_day_def quiet_day_def alice_def bob_def redis_empty_def
        keys_differ key_ne)
qed

end
